theory Spec2Isabelle
  imports Main
begin

section \<open>JavaScript values and arrays used by the tic-tac-toe exercises\<close>

text \<open>
  A board cell holds \<open>null\<close>, the string \<open>'X'\<close> or the string \<open>'O'\<close>; a read
  outside the array gives \<open>undefined\<close>. These are the only JavaScript values the
  game logic ever stores in or reads from a board.
\<close>

datatype jsval = Undefined | Null | Str string

text \<open>JavaScript truthiness: \<open>undefined\<close>, \<open>null\<close> and the empty string are falsy.\<close>

fun truthy :: "jsval \<Rightarrow> bool" where
  "truthy Undefined = False"
| "truthy Null = False"
| "truthy (Str s) = (s \<noteq> [])"

text \<open>
  Strict equality \<open>===\<close> on these values: same type and same value (strings compare
  by content).
\<close>

definition strict_eq :: "jsval \<Rightarrow> jsval \<Rightarrow> bool" where
  "strict_eq v w = (v = w)"

text \<open>
  A JavaScript array: its indexed elements, and the other own properties it has
  acquired (an assignment \<open>arr[k] = v\<close> with \<open>k\<close> not an array index, for instance
  \<open>-1\<close>, creates such a property and leaves the elements and the length alone).
  A hole of a sparse array is stored as \<open>Undefined\<close>, which is what reading it
  and spreading it give.
\<close>

record jsarray =
  elems :: "jsval list"
  props :: "(int \<times> jsval) list"

text \<open>An integer is an array index when it lies in \<open>[0, 2^32 - 2]\<close>.\<close>

definition is_array_index :: "int \<Rightarrow> bool" where
  "is_array_index i = (0 \<le> i \<and> i < 4294967295)"

text \<open>\<open>arr[i]\<close> as an expression.\<close>

definition js_get :: "jsarray \<Rightarrow> int \<Rightarrow> jsval" where
  "js_get arr i =
     (if is_array_index i
      then (if nat i < length (elems arr) then elems arr ! nat i else Undefined)
      else (case map_of (props arr) i of Some v \<Rightarrow> v | None \<Rightarrow> Undefined))"

text \<open>
  \<open>arr[i] = v\<close>: an index inside the array overwrites the element, an index at or
  past the length extends the array (the gap reads as \<open>undefined\<close>), any other
  integer sets an ordinary property.
\<close>

definition js_set :: "jsarray \<Rightarrow> int \<Rightarrow> jsval \<Rightarrow> jsarray" where
  "js_set arr i v =
     (if is_array_index i
      then (if nat i < length (elems arr)
            then arr\<lparr>elems := (elems arr)[nat i := v]\<rparr>
            else arr\<lparr>elems := elems arr @ replicate (nat i - length (elems arr)) Undefined @ [v]\<rparr>)
      else arr\<lparr>props := (i, v) # filter (\<lambda>p. fst p \<noteq> i) (props arr)\<rparr>)"

text \<open>\<open>[...arr]\<close>: a new array with the elements only.\<close>

definition js_spread :: "jsarray \<Rightarrow> jsarray" where
  "js_spread arr = \<lparr>elems = elems arr, props = []\<rparr>"

text \<open>
  \<open>xs.slice(0, e)\<close>: a negative end counts from the end of the array, and the
  end is clamped to \<open>[0, length]\<close>.
\<close>

definition js_slice0 :: "'a list \<Rightarrow> int \<Rightarrow> 'a list" where
  "js_slice0 xs e =
     (let len = int (length xs);
          k = (if e < 0 then max (len + e) 0 else min e len)
      in take (nat k) xs)"

text \<open>
  The remainder operator \<open>%\<close> on integers: the result has the sign of the
  dividend.
\<close>

definition js_rem :: "int \<Rightarrow> int \<Rightarrow> int" where
  "js_rem a b = sgn a * (\<bar>a\<bar> mod \<bar>b\<bar>)"

text \<open>\<open>Array(9).fill(null)\<close>.\<close>

definition empty_squares :: jsarray where
  "empty_squares = \<lparr>elems = replicate 9 Null, props = []\<rparr>"

section \<open>calculateWinner\<close>

text \<open>The table \<open>lines\<close> of \<open>calculateWinner\<close>, in the order of the source.\<close>

definition lines :: "(int \<times> int \<times> int) list" where
  "lines =
     [(0, 1, 2),
      (3, 4, 5),
      (6, 7, 8),
      (0, 3, 6),
      (1, 4, 7),
      (2, 5, 8),
      (0, 4, 8),
      (2, 4, 6)]"

text \<open>
  The \<open>for\<close> loop over \<open>lines\<close>, as recursion over the lines still to look at:
  the first line whose test succeeds ends the loop with \<open>squares[a]\<close>; when the
  lines are used up the function returns \<open>null\<close>.
\<close>

fun calculateWinner_loop :: "(int \<times> int \<times> int) list \<Rightarrow> jsarray \<Rightarrow> jsval" where
  "calculateWinner_loop [] squares = Null"
| "calculateWinner_loop ((a, b, c) # rest) squares =
     (if truthy (js_get squares a)
         \<and> strict_eq (js_get squares a) (js_get squares b)
         \<and> strict_eq (js_get squares a) (js_get squares c)
      then js_get squares a
      else calculateWinner_loop rest squares)"

definition calculateWinner :: "jsarray \<Rightarrow> jsval" where
  "calculateWinner squares = calculateWinner_loop lines squares"

section \<open>The reducer of the game with history\<close>

text \<open>A history entry is the object \<open>{squares}\<close>.\<close>

record entry =
  squares :: jsarray

text \<open>
  The reducer's state: \<open>{history, stepNumber}\<close>. \<open>stepNumber\<close> is a JavaScript
  number that holds an integer. The model takes it as an integer and computes
  \<open>stepNumber + 1\<close> and \<open>stepNumber % 2\<close> exactly. The source computes on
  doubles, which gives the same results as long as the operands and the result
  are safe integers, of absolute value at most \<open>2^53 - 1\<close>; past that bound
  the addition of the source rounds (\<open>2^53 + 1\<close> is \<open>2^53\<close>) and the model
  does not follow it. An array has fewer than \<open>2^32\<close> elements, so every cursor
  that points into a history is a safe integer.
\<close>

record state =
  history :: "entry list"
  stepNumber :: int

text \<open>\<open>Number.isSafeInteger\<close> on an integer.\<close>

definition safe_integer :: "int \<Rightarrow> bool" where
  "safe_integer n = (- 9007199254740991 \<le> n \<and> n \<le> 9007199254740991)"

text \<open>
  A dispatched action: its \<open>type\<close> and the two payload fields the reducer reads,
  \<open>action.stepNumber\<close> and \<open>action.square\<close>, taken as integers.
\<close>

record action =
  action_type :: string
  action_stepNumber :: int
  action_square :: int

text \<open>
  What a call of the reducer can do: return a value (a state object), return \<open>undefined\<close>
  (a bare \<open>return\<close>), or throw. \<open>Error msg\<close> is the \<open>throw new Error(msg)\<close> of the
  source; \<open>TypeError\<close> is the engine's error for reading a property of
  \<open>undefined\<close>.
\<close>

datatype error = Error string | TypeError

datatype 'a outcome = Returns 'a | ReturnsUndefined | Throws error

text \<open>\<open>const xIsNext = state.stepNumber % 2 === 0\<close>.\<close>

definition xIsNext :: "state \<Rightarrow> bool" where
  "xIsNext st = (js_rem (stepNumber st) 2 = 0)"

text \<open>
  \<open>boardReducer(state, action)\<close>. In the \<open>SELECT_SQUARE\<close> case, an empty
  \<open>newHistory\<close> makes \<open>current\<close> undefined, and \<open>current.squares\<close> throws.
\<close>

definition boardReducer :: "state \<Rightarrow> action \<Rightarrow> state outcome" where
  "boardReducer st act =
     (if action_type act = ''SET_STEPNUMBER''
      then Returns (st\<lparr>stepNumber := action_stepNumber act\<rparr>)
      else if action_type act = ''SELECT_SQUARE''
      then
        (let newHistory = js_slice0 (history st) (stepNumber st + 1)
         in if newHistory = [] then Throws TypeError
            else
              (let current = last newHistory;
                   sq = js_spread (squares current)
               in if truthy (calculateWinner sq) \<or> truthy (js_get sq (action_square act))
                  then ReturnsUndefined
                  else
                    (let sq' = js_set sq (action_square act)
                                 (if xIsNext st then Str ''X'' else Str ''O'');
                         history' = newHistory @ [\<lparr>squares = sq'\<rparr>]
                     in Returns (st\<lparr>history := history',
                                     stepNumber := stepNumber st + 1\<rparr>))))
      else Throws (Error (''Unexpection action: '' @ action_type act)))"

text \<open>The initial state handed to \<open>React.useReducer\<close> in \<open>Game\<close>.\<close>

definition initial_state :: state where
  "initial_state = \<lparr>history = [\<lparr>squares = empty_squares\<rparr>], stepNumber = 0\<rparr>"

section \<open>The winner function as the specification words it\<close>

text \<open>
  The eight lines of a 3 by 3 board stored row by row: three rows, three
  columns, two diagonals.
\<close>

definition rows :: "(int \<times> int \<times> int) list" where
  "rows = map (\<lambda>r. (3 * r, 3 * r + 1, 3 * r + 2)) [0, 1, 2]"

definition columns :: "(int \<times> int \<times> int) list" where
  "columns = map (\<lambda>c. (c, c + 3, c + 6)) [0, 1, 2]"

definition diagonals :: "(int \<times> int \<times> int) list" where
  "diagonals = [(0, 4, 8), (2, 4, 6)]"

definition is_mark :: "jsval \<Rightarrow> bool" where
  "is_mark v = (v = Null \<or> v = Str ''X'' \<or> v = Str ''O'')"

definition is_board :: "jsarray \<Rightarrow> bool" where
  "is_board sq = (length (elems sq) = 9 \<and> list_all is_mark (elems sq))"

fun three_equal_marks :: "jsarray \<Rightarrow> int \<times> int \<times> int \<Rightarrow> bool" where
  "three_equal_marks sq (a, b, c) =
     (js_get sq a \<noteq> Null \<and> js_get sq a = js_get sq b \<and> js_get sq a = js_get sq c)"

definition winner_spec :: "jsarray \<Rightarrow> jsval" where
  "winner_spec sq =
     (case find (three_equal_marks sq) (rows @ columns @ diagonals) of
        None \<Rightarrow> Null
      | Some (a, b, c) \<Rightarrow> js_get sq a)"

section \<open>Dispatching actions, and the vocabulary of the claims about the reducer\<close>

text \<open>
  \<open>Game\<close> keeps the reducer's state in \<open>React.useReducer\<close>: each dispatched
  action replaces the state by what the reducer returns. A run of dispatches
  ends early when the reducer does not return a state.
\<close>

fun dispatch_all :: "state \<Rightarrow> action list \<Rightarrow> state outcome" where
  "dispatch_all st [] = Returns st"
| "dispatch_all st (act # acts) =
     (case boardReducer st act of
        Returns st' \<Rightarrow> dispatch_all st' acts
      | ReturnsUndefined \<Rightarrow> ReturnsUndefined
      | Throws e \<Rightarrow> Throws e)"

text \<open>
  The actions \<open>Game\<close> dispatches: \<open>{type: 'SELECT_SQUARE', square}\<close> and
  \<open>{type: 'SET_STEPNUMBER', stepNumber}\<close>. The field an action does not carry
  is never read by the reducer; it is set to \<open>0\<close> here.
\<close>

definition select :: "int \<Rightarrow> action" where
  "select i = \<lparr>action_type = ''SELECT_SQUARE'', action_stepNumber = 0, action_square = i\<rparr>"

definition goto :: "int \<Rightarrow> action" where
  "goto i = \<lparr>action_type = ''SET_STEPNUMBER'', action_stepNumber = i, action_square = 0\<rparr>"

text \<open>The cursor \<open>stepNumber\<close> points at an entry of the history.\<close>

definition cursor_in_range :: "state \<Rightarrow> bool" where
  "cursor_in_range st = (0 \<le> stepNumber st \<and> stepNumber st < int (length (history st)))"

text \<open>
  For a cursor in range, the reducer's local \<open>squares\<close>: the copy of the board
  at the cursor. The two tests of the reducer's guard on it are named
  \<open>decided\<close> (a winner exists) and \<open>occupied\<close> (the target cell is taken).
\<close>

definition board_copy :: "state \<Rightarrow> jsarray" where
  "board_copy st = js_spread (squares (history st ! nat (stepNumber st)))"

definition decided :: "state \<Rightarrow> bool" where
  "decided st = truthy (calculateWinner (board_copy st))"

definition occupied :: "state \<Rightarrow> int \<Rightarrow> bool" where
  "occupied st i = truthy (js_get (board_copy st) i)"

definition legal_move :: "state \<Rightarrow> action \<Rightarrow> bool" where
  "legal_move st act =
     (action_type act = ''SELECT_SQUARE'' \<and> cursor_in_range st
      \<and> \<not> decided st \<and> \<not> occupied st (action_square act))"

text \<open>The cursor points at the last entry of a non-empty history.\<close>

definition cursor_at_end :: "state \<Rightarrow> bool" where
  "cursor_at_end st = (history st \<noteq> [] \<and> stepNumber st = int (length (history st)) - 1)"

text \<open>The mark found, after a move, in the newest snapshot at the cell of the move.\<close>

definition placed_mark :: "state \<Rightarrow> action \<Rightarrow> jsval" where
  "placed_mark st' act = js_get (squares (last (history st'))) (action_square act)"

section \<open>The Board components that keep their state in useState\<close>

text \<open>
  The two \<open>Board\<close> components hold \<open>squares\<close> and \<open>xIsNext\<close> in \<open>useState\<close>.
  \<open>selectSquare\<close> either returns early, which leaves the component state as
  it is, or calls both setters, which gives the next component state.
\<close>

record board_state =
  board_squares :: jsarray
  board_xIsNext :: bool

text \<open>\<open>selectSquare\<close> of the \<open>Board\<close> at the top of \<open>09.classes.js\<close>.\<close>

definition selectSquare :: "board_state \<Rightarrow> int \<Rightarrow> board_state" where
  "selectSquare b square =
     (if truthy (calculateWinner (board_squares b)) \<or> truthy (js_get (board_squares b) square)
      then b
      else
        (let squaresCopy = js_set (js_spread (board_squares b)) square
                             (if board_xIsNext b then Str ''X'' else Str ''O'')
         in \<lparr>board_squares = squaresCopy, board_xIsNext = \<not> board_xIsNext b\<rparr>))"

text \<open>
  In the second file (Tic Tac Toe: Advanced State) the guard calls
  \<open>calculateWinner(square)\<close>, with the index instead of the array. A number has
  no indexed properties: each read \<open>squares[a]\<close> inside \<open>calculateWinner\<close> gives
  \<open>undefined\<close>, as it does on an array without elements.
\<close>

definition number_as_object :: "int \<Rightarrow> jsarray" where
  "number_as_object n = \<lparr>elems = [], props = []\<rparr>"

definition selectSquare_advanced :: "board_state \<Rightarrow> int \<Rightarrow> board_state" where
  "selectSquare_advanced b square =
     (if truthy (calculateWinner (number_as_object square))
         \<or> truthy (js_get (board_squares b) square)
      then b
      else
        (let squaresCopy = js_set (js_spread (board_squares b)) square
                             (if board_xIsNext b then Str ''X'' else Str ''O'')
         in \<lparr>board_squares = squaresCopy, board_xIsNext = \<not> board_xIsNext b\<rparr>))"

section \<open>The reducer on a store of objects\<close>

text \<open>
  Arrays and objects are references: the state object refers to the history
  array, which refers to the entry objects, each of which refers to its
  \<open>squares\<close> array. To tell a copy from the original, and an assignment into
  an array from the making of a new one, the reducer is modelled a second time
  on an explicit store. \<open>lim\<close> is the next free address.
\<close>

type_synonym addr = nat

datatype hobj =
    SquaresArray jsarray
  | EntryObject addr
  | HistoryArray "addr list"
  | StateObject addr int

record store =
  objects :: "addr \<Rightarrow> hobj option"
  lim :: addr

text \<open>Creating an object (an array literal, a spread, a slice, an object literal).\<close>

definition alloc :: "hobj \<Rightarrow> store \<Rightarrow> addr \<times> store" where
  "alloc ob h = (lim h, h\<lparr>objects := (objects h)(lim h \<mapsto> ob), lim := Suc (lim h)\<rparr>)"

text \<open>\<open>arr[i] = v\<close> on the array at address \<open>a\<close>: the array is changed in place.\<close>

definition assign :: "store \<Rightarrow> addr \<Rightarrow> int \<Rightarrow> jsval \<Rightarrow> store" where
  "assign h a i v =
     (case objects h a of
        Some (SquaresArray arr) \<Rightarrow> h\<lparr>objects := (objects h)(a \<mapsto> SquaresArray (js_set arr i v))\<rparr>
      | _ \<Rightarrow> h)"

text \<open>
  \<open>boardReducer(state, action)\<close> with \<open>state\<close> a reference into the store. The
  result is the returned reference (or \<open>undefined\<close>, or the error thrown) and the
  store after the call. A reference that does not lead to an object of the
  expected kind makes the property read or the method call throw. As in the
  model on values, \<open>step + 1\<close> is the exact sum, which is the sum of the
  source for a safe integer \<open>step\<close>.
\<close>

definition boardReducer_store :: "store \<Rightarrow> addr \<Rightarrow> action \<Rightarrow> addr outcome \<times> store" where
  "boardReducer_store h state act =
     (case objects h state of
        Some (StateObject hist step) \<Rightarrow>
          if action_type act = ''SET_STEPNUMBER''
          then (let (r, h1) = alloc (StateObject hist (action_stepNumber act)) h
                in (Returns r, h1))
          else if action_type act = ''SELECT_SQUARE''
          then
            (case objects h hist of
               Some (HistoryArray es) \<Rightarrow>
                 (let nh = js_slice0 es (step + 1);
                      (newHistory, h1) = alloc (HistoryArray nh) h
                  in if nh = [] then (Throws TypeError, h1)
                     else
                       (case objects h1 (last nh) of
                          Some (EntryObject cur) \<Rightarrow>
                            (case objects h1 cur of
                               Some (SquaresArray arr) \<Rightarrow>
                                 (let (sq, h2) = alloc (SquaresArray (js_spread arr)) h1
                                  in if truthy (calculateWinner (js_spread arr))
                                        \<or> truthy (js_get (js_spread arr) (action_square act))
                                     then (ReturnsUndefined, h2)
                                     else
                                       (let h3 = assign h2 sq (action_square act)
                                                   (if js_rem step 2 = 0 then Str ''X'' else Str ''O'');
                                            (e, h4) = alloc (EntryObject sq) h3;
                                            (history', h5) = alloc (HistoryArray (nh @ [e])) h4;
                                            (r, h6) = alloc (StateObject history' (step + 1)) h5
                                        in (Returns r, h6)))
                             | _ \<Rightarrow> (Throws TypeError, h1))
                        | _ \<Rightarrow> (Throws TypeError, h1)))
             | _ \<Rightarrow> (Throws TypeError, h))
          else (Throws (Error (''Unexpection action: '' @ action_type act)), h)
      | _ \<Rightarrow> (Throws TypeError, h))"

text \<open>Every object of the store lies below the next free address.\<close>

definition store_ok :: "store \<Rightarrow> bool" where
  "store_ok h = (\<forall>a. objects h a \<noteq> None \<longrightarrow> a < lim h)"

text \<open>The entry and the state that a reference denotes in a store.\<close>

definition entry_of :: "store \<Rightarrow> addr \<Rightarrow> entry option" where
  "entry_of h e =
     (case objects h e of
        Some (EntryObject cur) \<Rightarrow>
          (case objects h cur of
             Some (SquaresArray arr) \<Rightarrow> Some \<lparr>squares = arr\<rparr>
           | _ \<Rightarrow> None)
      | _ \<Rightarrow> None)"

definition state_of :: "store \<Rightarrow> addr \<Rightarrow> state option" where
  "state_of h s =
     (case objects h s of
        Some (StateObject hist step) \<Rightarrow>
          (case objects h hist of
             Some (HistoryArray es) \<Rightarrow>
               (case those (map (entry_of h) es) of
                  Some ents \<Rightarrow> Some \<lparr>history = ents, stepNumber = step\<rparr>
                | None \<Rightarrow> None)
           | _ \<Rightarrow> None)
      | _ \<Rightarrow> None)"

text \<open>
  \<open>h'\<close> keeps every object of \<open>h\<close> as it is (and may hold new ones).
\<close>

definition keeps :: "store \<Rightarrow> store \<Rightarrow> bool" where
  "keeps h h' = (lim h \<le> lim h' \<and> (\<forall>a. a < lim h \<longrightarrow> objects h' a = objects h a))"

section \<open>Concrete boards and states\<close>

abbreviation markX :: jsval where "markX \<equiv> Str ''X''"
abbreviation markO :: jsval where "markO \<equiv> Str ''O''"

definition board :: "jsval list \<Rightarrow> entry" where
  "board cells = \<lparr>squares = \<lparr>elems = cells, props = []\<rparr>\<rparr>"

text \<open>A board on which both the middle row and the bottom row are complete.\<close>

definition xo_board :: jsarray where
  "xo_board = \<lparr>elems = [markO, markO, Null,
                         markX, markX, markX,
                         markO, markO, markO], props = []\<rparr>"

definition blank :: entry where
  "blank = board [Null, Null, Null, Null, Null, Null, Null, Null, Null]"

text \<open>After X has played cell 0.\<close>

definition x_at_0 :: state where
  "x_at_0 =
     \<lparr>history = [blank, board [markX, Null, Null, Null, Null, Null, Null, Null, Null]],
      stepNumber = 1\<rparr>"

text \<open>After X at 4.\<close>

definition x_at_4 :: state where
  "x_at_4 =
     \<lparr>history = [blank, board [Null, Null, Null, Null, markX, Null, Null, Null, Null]],
      stepNumber = 1\<rparr>"

text \<open>After X at 4 and O at 0.\<close>

definition x4_o0 :: state where
  "x4_o0 =
     \<lparr>history = [blank,
                 board [Null, Null, Null, Null, markX, Null, Null, Null, Null],
                 board [markO, Null, Null, Null, markX, Null, Null, Null, Null]],
      stepNumber = 2\<rparr>"

text \<open>
  The game X 0, O 4, X 1, O 8, after which the cursor was moved back to the
  start: a history of length 5 with the cursor at 0.
\<close>

definition five_snapshots :: state where
  "five_snapshots =
     \<lparr>history =
        [blank,
         board [markX, Null, Null, Null, Null, Null, Null, Null, Null],
         board [markX, Null, Null, Null, markO, Null, Null, Null, Null],
         board [markX, markX, Null, Null, markO, Null, Null, Null, Null],
         board [markX, markX, Null, Null, markO, Null, Null, Null, markO]],
      stepNumber = 0\<rparr>"

text \<open>The game X 0, O 4, X 1, O 8, X 2: X has won on the top row.\<close>

definition x_has_won :: state where
  "x_has_won =
     \<lparr>history =
        [blank,
         board [markX, Null, Null, Null, Null, Null, Null, Null, Null],
         board [markX, Null, Null, Null, markO, Null, Null, Null, Null],
         board [markX, markX, Null, Null, markO, Null, Null, Null, Null],
         board [markX, markX, Null, Null, markO, Null, Null, Null, markO],
         board [markX, markX, markX, Null, markO, Null, Null, Null, markO]],
      stepNumber = 5\<rparr>"

text \<open>The store that holds the state \<open>x_at_0\<close> at address 5.\<close>

definition x_at_0_store :: store where
  "x_at_0_store =
     \<lparr>objects = map_of
        [(0, SquaresArray \<lparr>elems = [Null, Null, Null, Null, Null, Null, Null, Null, Null], props = []\<rparr>),
         (1, EntryObject 0),
         (2, SquaresArray \<lparr>elems = [markX, Null, Null, Null, Null, Null, Null, Null, Null], props = []\<rparr>),
         (3, EntryObject 2),
         (4, HistoryArray [1, 3]),
         (5, StateObject 4 1)],
      lim = 6\<rparr>"

section \<open>Properties of calculateWinner\<close>

lemma lines_rows_columns_diagonals: "lines = rows @ columns @ diagonals"
  by (simp add: lines_def rows_def columns_def diagonals_def)

lemma calculateWinner_loop_find:
  "calculateWinner_loop ls sq =
     (case find (\<lambda>(a, b, c). truthy (js_get sq a) \<and> js_get sq a = js_get sq b
                              \<and> js_get sq a = js_get sq c) ls of
        None \<Rightarrow> Null
      | Some (a, b, c) \<Rightarrow> js_get sq a)"
  by (induction ls sq rule: calculateWinner_loop.induct) (auto simp: strict_eq_def)

lemma board_cell_is_mark:
  assumes "is_board sq" and "0 \<le> i" and "i < 9"
  shows "is_mark (js_get sq i)"
proof -
  from assms have "nat i < length (elems sq)" by (simp add: is_board_def)
  moreover from assms have "\<forall>v \<in> set (elems sq). is_mark v"
    by (simp add: is_board_def list_all_iff)
  ultimately have "is_mark (elems sq ! nat i)" by simp
  with assms \<open>nat i < length (elems sq)\<close> show ?thesis
    by (simp add: js_get_def is_array_index_def)
qed

lemma mark_truthy: "is_mark v \<Longrightarrow> truthy v = (v \<noteq> Null)"
  by (auto simp: is_mark_def)

lemma lines_first_in_range: "(a, b, c) \<in> set lines \<Longrightarrow> 0 \<le> a \<and> a < 9"
  by (auto simp: lines_def)

text \<open>
  Claim C5. The winner function looks at exactly the eight lines of the board,
  three rows, then three columns, then two diagonals, in that fixed order, and
  on every 9-cell board of marks it returns the mark of the first line whose
  three cells hold equal non-empty marks, or \<open>null\<close> when no line matches.
\<close>

theorem calculateWinner_first_matching_line:
  "lines = rows @ columns @ diagonals \<and> length lines = 8 \<and>
   (is_board sq \<longrightarrow> calculateWinner sq = winner_spec sq)"
proof (intro conjI impI)
  show "lines = rows @ columns @ diagonals" by (rule lines_rows_columns_diagonals)
  show "length lines = 8" by (simp add: lines_def)
next
  assume b: "is_board sq"
  have "find (\<lambda>(a, b, c). truthy (js_get sq a) \<and> js_get sq a = js_get sq b
                              \<and> js_get sq a = js_get sq c) lines
        = find (three_equal_marks sq) lines"
  proof (rule find_cong[OF refl])
    fix l assume "l \<in> set lines"
    obtain a b' c where l: "l = (a, b', c)" by (cases l)
    with \<open>l \<in> set lines\<close> have "0 \<le> a" "a < 9"
      using lines_first_in_range[of a b' c] by simp_all
    with b have "truthy (js_get sq a) = (js_get sq a \<noteq> Null)"
      by (intro mark_truthy board_cell_is_mark)
    then show "(case l of (a, b, c) \<Rightarrow> truthy (js_get sq a) \<and> js_get sq a = js_get sq b
                              \<and> js_get sq a = js_get sq c) = three_equal_marks sq l"
      by (simp add: l)
  qed
  then show "calculateWinner sq = winner_spec sq"
    by (simp add: calculateWinner_def winner_spec_def calculateWinner_loop_find
        lines_rows_columns_diagonals)
qed

theorem calculateWinner_first_matching_line_witness:
  "is_board xo_board \<and> calculateWinner xo_board = winner_spec xo_board
   \<and> winner_spec xo_board = Str ''X''"
proof -
  have b: "is_board xo_board" by (simp add: is_board_def xo_board_def is_mark_def)
  have "winner_spec xo_board = Str ''X''"
    by (simp add: winner_spec_def rows_def columns_def diagonals_def xo_board_def
        js_get_def is_array_index_def)
  with b calculateWinner_first_matching_line[of xo_board] show ?thesis by simp
qed

section \<open>Basic facts about the array operations\<close>

lemmas reducer_eval = boardReducer_def js_slice0_def Let_def js_spread_def calculateWinner_def
  lines_def js_get_def js_set_def is_array_index_def xIsNext_def js_rem_def strict_eq_def
  select_def goto_def board_def blank_def initial_state_def empty_squares_def

lemma initial_state_blank: "initial_state = \<lparr>history = [blank], stepNumber = 0\<rparr>"
  by (simp add: initial_state_def blank_def board_def empty_squares_def numeral_eq_Suc)

lemma js_slice0_cursor:
  "0 \<le> c \<Longrightarrow> c < int (length xs) \<Longrightarrow> js_slice0 xs (c + 1) = take (nat c + 1) xs"
  by (simp add: js_slice0_def Let_def min_def nat_add_distrib)

lemma last_take_cursor: "n < length xs \<Longrightarrow> last (take (n + 1) xs) = xs ! n"
  by (simp add: take_Suc_conv_app_nth)

lemma take_cursor_nonempty: "n < length xs \<Longrightarrow> take (n + 1) xs \<noteq> []"
  by (cases xs) auto

lemma xIsNext_even: "xIsNext st = even (stepNumber st)"
  unfolding xIsNext_def js_rem_def by (auto simp: sgn_if abs_if)

lemma js_get_js_set_same: "js_get (js_set arr i v) i = v"
  by (auto simp: js_get_def js_set_def nth_append)

lemma js_get_spread_outside:
  "i < 0 \<or> int (length (elems arr)) \<le> i \<Longrightarrow> js_get (js_spread arr) i = Undefined"
  by (auto simp: js_get_def js_spread_def is_array_index_def)

text \<open>
  A cursor that points into a history of fewer than \<open>2^32\<close> entries, the most a
  JavaScript array can hold, is a safe integer, and so is its successor: there
  the exact \<open>stepNumber + 1\<close> of the model is the sum the source computes.
\<close>

lemma cursor_in_range_safe:
  assumes "cursor_in_range st" and "length (history st) < 4294967296"
  shows "safe_integer (stepNumber st) \<and> safe_integer (stepNumber st + 1)"
  using assms by (simp add: cursor_in_range_def safe_integer_def)

section \<open>The SELECT_SQUARE case for a cursor in range\<close>

lemma select_square_in_range:
  assumes "action_type act = ''SELECT_SQUARE''" and "cursor_in_range st"
  shows "boardReducer st act =
     (if decided st \<or> occupied st (action_square act) then ReturnsUndefined
      else Returns \<lparr>history = take (nat (stepNumber st) + 1) (history st)
                        @ [\<lparr>squares = js_set (board_copy st) (action_square act)
                                          (if xIsNext st then Str ''X'' else Str ''O'')\<rparr>],
                     stepNumber = stepNumber st + 1\<rparr>)"
proof -
  from assms(2) have c: "0 \<le> stepNumber st" "stepNumber st < int (length (history st))"
    by (simp_all add: cursor_in_range_def)
  then have n: "nat (stepNumber st) < length (history st)" by simp
  have sl: "js_slice0 (history st) (stepNumber st + 1) = take (nat (stepNumber st) + 1) (history st)"
    using c by (rule js_slice0_cursor)
  show ?thesis
    unfolding boardReducer_def sl Let_def decided_def occupied_def board_copy_def
    using assms(1) take_cursor_nonempty[OF n] last_take_cursor[OF n]
    by simp
qed

lemma select_square_returns:
  assumes "action_type act = ''SELECT_SQUARE''" and "boardReducer st act = Returns st'"
  shows "st' = st\<lparr>history := js_slice0 (history st) (stepNumber st + 1)
               @ [\<lparr>squares = js_set (js_spread (squares (last (js_slice0 (history st) (stepNumber st + 1)))))
                                (action_square act) (if xIsNext st then Str ''X'' else Str ''O'')\<rparr>],
             stepNumber := stepNumber st + 1\<rparr>"
  using assms by (auto simp: boardReducer_def Let_def split: if_splits)


section \<open>Rejected moves\<close>

text \<open>
  Claim C1. An invalid \<open>SELECT_SQUARE\<close> (occupied cell or decided game) is
  meant to leave the state as it is. The reducer takes its bare \<open>return\<close>
  instead: after X has played cell 0, selecting cell 0 again makes the reducer
  return \<open>undefined\<close>, not the input state.
\<close>

theorem invalid_move_returns_undefined:
  "boardReducer x_at_0 (select 0) = ReturnsUndefined
   \<and> boardReducer x_at_0 (select 0) \<noteq> Returns x_at_0"
  by (simp add: reducer_eval x_at_0_def)

text \<open>
  Claim C4 as stated asks for an \<open>AlreadyDecided\<close> error. On the won board the
  reducer throws nothing: it takes the bare \<open>return\<close>.
\<close>

theorem decided_move_no_error_counterexample:
  "decided x_has_won \<and> boardReducer x_has_won (select 3) = ReturnsUndefined"
  by (simp add: decided_def board_copy_def reducer_eval x_has_won_def)

text \<open>
  Claim C4, amended. For every state whose current snapshot has a winner, every
  \<open>SELECT_SQUARE\<close> is rejected by the reducer's early return: nothing is
  thrown, no mark is placed and no snapshot is appended.
\<close>

theorem decided_move_rejected:
  assumes "action_type act = ''SELECT_SQUARE''" and "cursor_in_range st" and "decided st"
  shows "boardReducer st act = ReturnsUndefined"
  using select_square_in_range[OF assms(1,2)] assms(3) by simp

theorem decided_move_rejected_witness:
  "action_type (select 5) = ''SELECT_SQUARE'' \<and> cursor_in_range x_has_won \<and> decided x_has_won
   \<and> \<not> occupied x_has_won 5
   \<and> boardReducer x_has_won (select 5) = ReturnsUndefined"
proof -
  have a: "action_type (select 5) = ''SELECT_SQUARE''" by (simp add: select_def)
  have c: "cursor_in_range x_has_won" by (simp add: cursor_in_range_def x_has_won_def)
  have d: "decided x_has_won" by (simp add: decided_def board_copy_def reducer_eval x_has_won_def)
  have o: "\<not> occupied x_has_won 5" by (simp add: occupied_def board_copy_def reducer_eval x_has_won_def)
  from decided_move_rejected[OF a c d] a c d o show ?thesis by simp
qed

section \<open>SET_STEPNUMBER\<close>

text \<open>
  Claim C2 as stated asks for an \<open>OutOfRange\<close> failure. With a history of
  length 1, jumping to step 7 succeeds and stores the cursor 7.
\<close>

theorem set_stepNumber_out_of_range_counterexample:
  "length (history initial_state) = 1
   \<and> boardReducer initial_state (goto 7) = Returns \<lparr>history = [blank], stepNumber = 7\<rparr>"
  by (simp add: initial_state_blank boardReducer_def goto_def)

text \<open>
  Claim C2, amended. For every state and every integer index, \<open>SET_STEPNUMBER\<close>
  never fails: it returns the state with the cursor set to the index, in range
  or not, and with the history as it was.
\<close>

theorem set_stepNumber_never_fails:
  "action_type act = ''SET_STEPNUMBER'' \<Longrightarrow>
   boardReducer st act = Returns \<lparr>history = history st, stepNumber = action_stepNumber act\<rparr>"
  by (simp add: boardReducer_def)

theorem set_stepNumber_never_fails_witness:
  "action_type (goto 2) = ''SET_STEPNUMBER''
   \<and> boardReducer five_snapshots (goto 2)
       = Returns \<lparr>history = history five_snapshots, stepNumber = 2\<rparr>
   \<and> action_type (goto (-3)) = ''SET_STEPNUMBER''
   \<and> boardReducer five_snapshots (goto (-3))
       = Returns \<lparr>history = history five_snapshots, stepNumber = -3\<rparr>"
  using set_stepNumber_never_fails[of "goto 2" five_snapshots]
    set_stepNumber_never_fails[of "goto (-3)" five_snapshots]
  by (simp add: goto_def)

section \<open>Unknown actions\<close>

text \<open>
  Claim C10. For every state and every action whose type is neither
  \<open>'SET_STEPNUMBER'\<close> nor \<open>'SELECT_SQUARE'\<close>, the reducer throws an \<open>Error\<close>
  whose message names the action type; it returns no state.
\<close>

theorem unknown_action_throws:
  "action_type act \<noteq> ''SET_STEPNUMBER'' \<Longrightarrow> action_type act \<noteq> ''SELECT_SQUARE'' \<Longrightarrow>
   boardReducer st act = Throws (Error (''Unexpection action: '' @ action_type act))"
  by (simp add: boardReducer_def)

theorem unknown_action_throws_witness:
  "''RESET'' \<noteq> ''SET_STEPNUMBER'' \<and> ''RESET'' \<noteq> ''SELECT_SQUARE'' \<and>
   boardReducer initial_state \<lparr>action_type = ''RESET'', action_stepNumber = 0, action_square = 0\<rparr>
     = Throws (Error ''Unexpection action: RESET'')"
  using unknown_action_throws[of "\<lparr>action_type = ''RESET'', action_stepNumber = 0, action_square = 0\<rparr>" initial_state]
  by simp

section \<open>Whose turn it is\<close>

text \<open>
  Claim C7. The player to move is a function of the parity of the cursor alone:
  X when it is even, O when it is odd. For a cursor that is a safe integer,
  where the reducer's \<open>stepNumber + 1\<close> is exact, each accepted \<open>SELECT_SQUARE\<close>
  places that player's mark and flips the turn, so the marks placed by two
  consecutive accepted moves differ.
\<close>

theorem whoseTurn_parity_alternates:
  "xIsNext st = even (stepNumber st) \<and>
   (safe_integer (stepNumber st)
    \<and> action_type a1 = ''SELECT_SQUARE'' \<and> boardReducer st a1 = Returns st1 \<longrightarrow>
      placed_mark st1 a1 = (if even (stepNumber st) then Str ''X'' else Str ''O'')
      \<and> xIsNext st1 = (\<not> xIsNext st)
      \<and> (safe_integer (stepNumber st1)
          \<and> action_type a2 = ''SELECT_SQUARE'' \<and> boardReducer st1 a2 = Returns st2 \<longrightarrow>
           placed_mark st2 a2 \<noteq> placed_mark st1 a1))"
proof -
  have step: "placed_mark s' a = (if even (stepNumber s) then Str ''X'' else Str ''O'')
              \<and> xIsNext s' = (\<not> xIsNext s)"
    if "action_type a = ''SELECT_SQUARE''" and "boardReducer s a = Returns s'" for s a s'
    by (simp add: select_square_returns[OF that] placed_mark_def js_get_js_set_same xIsNext_even)
  show ?thesis
  proof (intro conjI impI)
    show "xIsNext st = even (stepNumber st)" by (rule xIsNext_even)
  next
    assume h: "safe_integer (stepNumber st)
      \<and> action_type a1 = ''SELECT_SQUARE'' \<and> boardReducer st a1 = Returns st1"
    with step[of a1 st st1]
    show "placed_mark st1 a1 = (if even (stepNumber st) then Str ''X'' else Str ''O'')"
      and "xIsNext st1 = (\<not> xIsNext st)" by simp_all
  next
    assume h1: "safe_integer (stepNumber st)
      \<and> action_type a1 = ''SELECT_SQUARE'' \<and> boardReducer st a1 = Returns st1"
      and h2: "safe_integer (stepNumber st1)
      \<and> action_type a2 = ''SELECT_SQUARE'' \<and> boardReducer st1 a2 = Returns st2"
    from step[of a1 st st1] h1
    have 1: "placed_mark st1 a1 = (if even (stepNumber st) then Str ''X'' else Str ''O'')"
      and x: "xIsNext st1 = (\<not> xIsNext st)" by simp_all
    from step[of a2 st1 st2] h2
    have 2: "placed_mark st2 a2 = (if even (stepNumber st1) then Str ''X'' else Str ''O'')"
      by simp
    from x have "even (stepNumber st1) = (\<not> even (stepNumber st))" by (simp add: xIsNext_even)
    with 1 2 show "placed_mark st2 a2 \<noteq> placed_mark st1 a1" by simp
  qed
qed

theorem whoseTurn_parity_alternates_witness:
  "safe_integer (stepNumber initial_state)
   \<and> action_type (select 4) = ''SELECT_SQUARE''
   \<and> boardReducer initial_state (select 4) = Returns x_at_4
   \<and> safe_integer (stepNumber x_at_4)
   \<and> action_type (select 0) = ''SELECT_SQUARE''
   \<and> boardReducer x_at_4 (select 0) = Returns x4_o0
   \<and> xIsNext initial_state
   \<and> placed_mark x_at_4 (select 4) = Str ''X''
   \<and> \<not> xIsNext x_at_4
   \<and> placed_mark x4_o0 (select 0) \<noteq> placed_mark x_at_4 (select 4)"
proof -
  have 1: "boardReducer initial_state (select 4) = Returns x_at_4"
    by (simp add: initial_state_blank x_at_4_def) (simp add: reducer_eval)
  have 2: "boardReducer x_at_4 (select 0) = Returns x4_o0"
    by (simp add: reducer_eval x_at_4_def x4_o0_def)
  have 3: "action_type (select 4) = ''SELECT_SQUARE''" "action_type (select 0) = ''SELECT_SQUARE''"
    by (simp_all add: select_def)
  have 4: "stepNumber initial_state = 0" by (simp add: initial_state_def)
  have 5: "xIsNext initial_state" by (simp add: xIsNext_def js_rem_def 4)
  have 6: "safe_integer (stepNumber initial_state)" "safe_integer (stepNumber x_at_4)"
    by (simp_all add: safe_integer_def 4 x_at_4_def)
  from whoseTurn_parity_alternates[of initial_state "select 4" x_at_4 "select 0" x4_o0] 1 2 3 4 5 6
  show ?thesis by auto
qed

section \<open>Appending a snapshot\<close>

text \<open>
  Claim C3. For every state with the cursor inside the history, a legal
  \<open>SELECT_SQUARE\<close> keeps the snapshots \<open>[0, Cursor]\<close>, drops the later ones,
  appends the new snapshot and sets the cursor to the new last index. For a
  history of length 5 with the cursor at 0 the new history has length 2.
\<close>

theorem select_square_truncates_then_appends:
  assumes "legal_move st act"
  shows "let H = take (nat (stepNumber st) + 1) (history st)
                   @ [\<lparr>squares = js_set (board_copy st) (action_square act)
                                     (if xIsNext st then Str ''X'' else Str ''O'')\<rparr>]
         in boardReducer st act = Returns \<lparr>history = H, stepNumber = int (length H) - 1\<rparr>
            \<and> (length (history st) = 5 \<and> stepNumber st = 0 \<longrightarrow> length H = 2)"
proof -
  from assms have a: "action_type act = ''SELECT_SQUARE''" and c: "cursor_in_range st"
    and l: "\<not> (decided st \<or> occupied st (action_square act))"
    by (simp_all add: legal_move_def)
  from c have "min (length (history st)) (nat (stepNumber st) + 1) = nat (stepNumber st) + 1"
    by (simp add: cursor_in_range_def) linarith
  with c have "int (length (take (nat (stepNumber st) + 1) (history st))) = stepNumber st + 1"
    by (simp add: cursor_in_range_def)
  with select_square_in_range[OF a c] l show ?thesis
    by (simp add: Let_def)
qed

theorem select_square_truncates_then_appends_witness:
  "legal_move five_snapshots (select 3) \<and> length (history five_snapshots) = 5
   \<and> stepNumber five_snapshots = 0
   \<and> boardReducer five_snapshots (select 3)
       = Returns \<lparr>history = [blank, board [Null, Null, Null, markX, Null, Null, Null, Null, Null]],
                   stepNumber = 1\<rparr>"
proof -
  have l: "legal_move five_snapshots (select 3)"
    by (simp add: legal_move_def cursor_in_range_def decided_def occupied_def board_copy_def
        reducer_eval five_snapshots_def)
  have f: "length (history five_snapshots) = 5" "stepNumber five_snapshots = 0"
    by (simp_all add: five_snapshots_def)
  have h: "take (nat (stepNumber five_snapshots) + 1) (history five_snapshots)
                   @ [\<lparr>squares = js_set (board_copy five_snapshots) (action_square (select 3))
                                     (if xIsNext five_snapshots then Str ''X'' else Str ''O'')\<rparr>]
     = [blank, board [Null, Null, Null, markX, Null, Null, Null, Null, Null]]"
    by (simp add: board_copy_def reducer_eval five_snapshots_def)
  from select_square_truncates_then_appends[OF l] show ?thesis
    unfolding Let_def h using l f by simp
qed

section \<open>Runs of accepted moves\<close>

lemma dispatch_all_append:
  "dispatch_all st (xs @ ys) =
     (case dispatch_all st xs of
        Returns s \<Rightarrow> dispatch_all s ys
      | ReturnsUndefined \<Rightarrow> ReturnsUndefined
      | Throws e \<Rightarrow> Throws e)"
  by (induction xs arbitrary: st) (auto split: outcome.splits)

lemma append_at_end:
  assumes "cursor_at_end st" and "action_type act = ''SELECT_SQUARE''"
    and "boardReducer st act = Returns st'"
  shows "length (history st') = length (history st) + 1 \<and> cursor_at_end st'"
proof -
  from assms(1) have c: "cursor_in_range st"
    by (auto simp: cursor_at_end_def cursor_in_range_def)
  from assms(1) have n: "nat (stepNumber st) + 1 = length (history st)"
    by (cases "history st") (auto simp: cursor_at_end_def)
  from assms(1) have m: "stepNumber st + 1 = int (length (history st))"
    by (simp add: cursor_at_end_def)
  from select_square_in_range[OF assms(2) c] assms(3) n m show ?thesis
    by (auto simp: cursor_at_end_def split: if_splits)
qed

lemma dispatch_all_at_end:
  assumes "list_all (\<lambda>a. action_type a = ''SELECT_SQUARE'') acts"
    and "cursor_at_end st" and "dispatch_all st acts = Returns st'"
  shows "length (history st') = length (history st) + length acts \<and> cursor_at_end st'"
  using assms
proof (induction acts arbitrary: st)
  case Nil
  then show ?case by simp
next
  case (Cons a acts)
  from Cons.prems(3) obtain s1 where s1: "boardReducer st a = Returns s1"
    and rest: "dispatch_all s1 acts = Returns st'"
    by (auto split: outcome.splits)
  from Cons.prems(1) have a: "action_type a = ''SELECT_SQUARE''"
    and as: "list_all (\<lambda>a. action_type a = ''SELECT_SQUARE'') acts" by simp_all
  from append_at_end[OF Cons.prems(2) a s1]
  have l1: "length (history s1) = length (history st) + 1" and e1: "cursor_at_end s1" by simp_all
  from Cons.IH[OF as e1 rest] l1 show ?case by simp
qed

text \<open>
  Claim C8. For every sequence of accepted moves dispatched from the initial
  state, with no \<open>SET_STEPNUMBER\<close> in between, after each move (after the first
  \<open>k\<close> moves, for every \<open>k\<close>) the history holds one snapshot more than the
  number of moves made, and the cursor is the last index of the history.
\<close>

theorem history_length_is_moves_plus_one:
  assumes "list_all (\<lambda>a. action_type a = ''SELECT_SQUARE'') acts"
    and "dispatch_all initial_state acts = Returns st"
    and "k \<le> length acts"
  shows "\<exists>stk. dispatch_all initial_state (take k acts) = Returns stk
           \<and> length (history stk) = k + 1
           \<and> stepNumber stk = int (length (history stk)) - 1"
proof -
  have "dispatch_all initial_state (take k acts @ drop k acts) = Returns st"
    using assms(2) by simp
  then obtain stk where stk: "dispatch_all initial_state (take k acts) = Returns stk"
    unfolding dispatch_all_append by (auto split: outcome.splits)
  have sel: "list_all (\<lambda>a. action_type a = ''SELECT_SQUARE'') (take k acts)"
    using assms(1) by (auto simp: list_all_iff dest: in_set_takeD)
  have init: "cursor_at_end initial_state"
    by (simp add: cursor_at_end_def initial_state_def)
  from dispatch_all_at_end[OF sel init stk] assms(3)
  have "length (history stk) = k + 1" and "cursor_at_end stk"
    by (simp_all add: initial_state_def min_def)
  with stk show ?thesis by (auto simp: cursor_at_end_def)
qed

theorem history_length_is_moves_plus_one_witness:
  "list_all (\<lambda>a. action_type a = ''SELECT_SQUARE'') [select 4, select 0]
   \<and> dispatch_all initial_state [select 4, select 0] = Returns x4_o0
   \<and> (1::nat) \<le> length [select 4, select 0]
   \<and> (\<exists>stk. dispatch_all initial_state (take 1 [select 4, select 0]) = Returns stk
           \<and> length (history stk) = 1 + 1
           \<and> stepNumber stk = int (length (history stk)) - 1)"
proof -
  have a: "list_all (\<lambda>a. action_type a = ''SELECT_SQUARE'') [select 4, select 0]"
    by (simp add: select_def)
  have 1: "boardReducer initial_state (select 4) = Returns x_at_4"
    by (simp add: initial_state_blank x_at_4_def) (simp add: reducer_eval)
  have 2: "boardReducer x_at_4 (select 0) = Returns x4_o0"
    by (simp add: reducer_eval x_at_4_def x4_o0_def)
  have d: "dispatch_all initial_state [select 4, select 0] = Returns x4_o0"
    by (simp add: 1 2)
  have k: "(1::nat) \<le> length [select 4, select 0]" by simp
  from history_length_is_moves_plus_one[OF a d k] a d k show ?thesis by blast
qed

section \<open>Cells outside the board\<close>

text \<open>
  Claim C6 as stated asks for an \<open>IndexOutOfRange\<close> failure and no new
  snapshot. On the empty board, selecting cell 9 is accepted: the new snapshot
  is an array of ten elements with X in the tenth.
\<close>

theorem cell_out_of_range_counterexample:
  "boardReducer initial_state (select 9)
     = Returns \<lparr>history = [blank,
                            board [Null, Null, Null, Null, Null, Null, Null, Null, Null, markX]],
                 stepNumber = 1\<rparr>"
  by (simp add: initial_state_blank) (simp add: reducer_eval)

text \<open>
  Claim C6, amended. For every state with the cursor inside the history whose
  current snapshot is a 9-cell board without a winner, and every integer
  cellIndex outside \<open>[0, 8]\<close>, \<open>SELECT_SQUARE\<close> does not fail: the reducer accepts
  the move and returns a state whose history has a new snapshot appended, the
  copy of the current board with the mark stored under that index, and whose
  cursor has advanced by one.
\<close>

theorem cell_out_of_range_accepted:
  assumes "action_type act = ''SELECT_SQUARE''" and "cursor_in_range st"
    and "length (elems (squares (history st ! nat (stepNumber st)))) = 9"
    and "\<not> decided st"
    and "action_square act < 0 \<or> 8 < action_square act"
  shows "boardReducer st act =
     Returns \<lparr>history = take (nat (stepNumber st) + 1) (history st)
                 @ [\<lparr>squares = js_set (board_copy st) (action_square act)
                                   (if xIsNext st then Str ''X'' else Str ''O'')\<rparr>],
              stepNumber = stepNumber st + 1\<rparr>"
proof -
  from assms(3,5) have "js_get (board_copy st) (action_square act) = Undefined"
    unfolding board_copy_def by (intro js_get_spread_outside) auto
  then have "\<not> occupied st (action_square act)" by (simp add: occupied_def)
  with select_square_in_range[OF assms(1,2)] assms(4) show ?thesis by simp
qed

theorem cell_out_of_range_accepted_witness:
  "action_type (select (-1)) = ''SELECT_SQUARE'' \<and> cursor_in_range x_at_4
   \<and> length (elems (squares (history x_at_4 ! nat (stepNumber x_at_4)))) = 9
   \<and> \<not> decided x_at_4
   \<and> (action_square (select (-1)) < 0 \<or> 8 < action_square (select (-1)))
   \<and> boardReducer x_at_4 (select (-1)) =
       Returns \<lparr>history = [blank, board [Null, Null, Null, Null, markX, Null, Null, Null, Null],
                   \<lparr>squares = \<lparr>elems = [Null, Null, Null, Null, markX, Null, Null, Null, Null],
                                props = [(-1, markO)]\<rparr>\<rparr>],
                 stepNumber = 2\<rparr>"
proof -
  have a: "action_type (select (-1)) = ''SELECT_SQUARE''" by (simp add: select_def)
  have c: "cursor_in_range x_at_4" by (simp add: cursor_in_range_def x_at_4_def)
  have n: "length (elems (squares (history x_at_4 ! nat (stepNumber x_at_4)))) = 9"
    by (simp add: x_at_4_def board_def)
  have d: "\<not> decided x_at_4"
    by (simp add: decided_def board_copy_def reducer_eval x_at_4_def)
  have i: "action_square (select (-1)) < 0 \<or> 8 < action_square (select (-1))"
    by (simp add: select_def)
  have r: "take (nat (stepNumber x_at_4) + 1) (history x_at_4)
                 @ [\<lparr>squares = js_set (board_copy x_at_4) (action_square (select (-1)))
                                   (if xIsNext x_at_4 then Str ''X'' else Str ''O'')\<rparr>]
     = [blank, board [Null, Null, Null, Null, markX, Null, Null, Null, Null],
                   \<lparr>squares = \<lparr>elems = [Null, Null, Null, Null, markX, Null, Null, Null, Null],
                                props = [(-1, markO)]\<rparr>\<rparr>]"
    by (simp add: board_copy_def reducer_eval x_at_4_def)
  have s: "stepNumber x_at_4 + 1 = 2" by (simp add: x_at_4_def)
  from cell_out_of_range_accepted[OF a c n d i] a c n d i show ?thesis
    unfolding r s by simp
qed

section \<open>The reducer never changes an object it was given\<close>

lemma keeps_refl: "keeps h h"
  by (simp add: keeps_def)

lemma keeps_trans: "keeps h h1 \<Longrightarrow> keeps h1 h2 \<Longrightarrow> keeps h h2"
  by (auto simp: keeps_def)

lemma keeps_alloc: "alloc ob h = (a, h') \<Longrightarrow> keeps h h'"
  by (auto simp: alloc_def keeps_def)

lemma alloc_fresh: "alloc ob h = (a, h') \<Longrightarrow> a = lim h \<and> lim h' = Suc (lim h) \<and> objects h' a = Some ob"
  by (auto simp: alloc_def)

lemma keeps_assign_fresh: "keeps h h1 \<Longrightarrow> lim h \<le> a \<Longrightarrow> keeps h (assign h1 a i v)"
  by (auto simp: keeps_def assign_def split: option.splits hobj.splits)

lemma boardReducer_store_keeps: "keeps h (snd (boardReducer_store h s act))"
proof -
  have k: "keeps h (snd (alloc ob h))" for ob h
    by (simp add: alloc_def keeps_def)
  show ?thesis
    unfolding boardReducer_store_def
    apply (simp add: Let_def split_beta keeps_refl k split: option.split hobj.split)
    apply (intro allI impI conjI)
    apply (auto simp: keeps_def alloc_def assign_def split: option.splits hobj.splits)
    done
qed

section \<open>The store model refines the reducer on values\<close>

lemma those_eq_Some: "those xs = Some ys \<longleftrightarrow> xs = map Some ys"
  by (induction xs arbitrary: ys) (auto split: option.splits)

lemma those_map_Some: "those (map Some ys) = Some ys"
  by (simp add: those_eq_Some)

lemma state_of_SomeD:
  assumes "state_of h s = Some st"
  obtains hist es where "objects h s = Some (StateObject hist (stepNumber st))"
    and "objects h hist = Some (HistoryArray es)"
    and "map (entry_of h) es = map Some (history st)"
  using assms unfolding state_of_def
  by (auto split: option.splits hobj.splits simp: those_eq_Some)

lemma entry_of_SomeD:
  assumes "entry_of h e = Some x"
  obtains cur where "objects h e = Some (EntryObject cur)"
    and "objects h cur = Some (SquaresArray (squares x))"
  using assms unfolding entry_of_def
  by (auto split: option.splits hobj.splits)

lemma entry_of_keeps:
  assumes "store_ok h" and "keeps h h'" and "entry_of h e = Some x"
  shows "entry_of h' e = Some x"
proof -
  from assms(3) obtain cur where e: "objects h e = Some (EntryObject cur)"
    and c: "objects h cur = Some (SquaresArray (squares x))"
    by (rule entry_of_SomeD)
  from assms(1) e c have "e < lim h" "cur < lim h" by (auto simp: store_ok_def)
  with assms(2) e c have "objects h' e = Some (EntryObject cur)"
    and "objects h' cur = Some (SquaresArray (squares x))"
    by (simp_all add: keeps_def)
  then show ?thesis by (simp add: entry_of_def)
qed

lemma entries_keeps:
  assumes "store_ok h" and "keeps h h'" and "map (entry_of h) es = map Some ents"
  shows "map (entry_of h') es = map Some ents"
proof -
  have "entry_of h' e = entry_of h e" if "e \<in> set es" for e
  proof -
    from that assms(3) have "entry_of h e \<in> set (map Some ents)"
      by (metis image_eqI set_map)
    then obtain x where "entry_of h e = Some x" by auto
    with entry_of_keeps[OF assms(1,2)] show ?thesis by simp
  qed
  then have "map (entry_of h') es = map (entry_of h) es" by simp
  with assms(3) show ?thesis by simp
qed

lemma state_of_keeps:
  assumes "store_ok h" and "keeps h h'" and "state_of h s = Some st"
  shows "state_of h' s = Some st"
proof -
  from assms(3) obtain hist es where s: "objects h s = Some (StateObject hist (stepNumber st))"
    and hi: "objects h hist = Some (HistoryArray es)"
    and en: "map (entry_of h) es = map Some (history st)"
    by (rule state_of_SomeD)
  from assms(1) s hi have "s < lim h" "hist < lim h" by (auto simp: store_ok_def)
  with assms(2) s hi have "objects h' s = Some (StateObject hist (stepNumber st))"
    and "objects h' hist = Some (HistoryArray es)"
    by (simp_all add: keeps_def)
  with entries_keeps[OF assms(1,2) en] show ?thesis
    by (simp add: state_of_def those_eq_Some[THEN iffD2])
qed

lemma js_slice0_map: "map f (js_slice0 xs k) = js_slice0 (map f xs) k"
  by (simp add: js_slice0_def Let_def take_map)

lemma map_Some_eq_Nil: "map f xs = map Some ys \<Longrightarrow> (xs = []) = (ys = [])"
  by (cases xs; cases ys) auto

lemma boardReducer_store_refines:
  assumes ok: "store_ok h" and st: "state_of h s = Some st"
  shows "rel_outcome (\<lambda>r st'. state_of (snd (boardReducer_store h s act)) r = Some st')
           (fst (boardReducer_store h s act)) (boardReducer st act)"
proof -
  from st obtain hist es where s: "objects h s = Some (StateObject hist (stepNumber st))"
    and hi: "objects h hist = Some (HistoryArray es)"
    and en: "map (entry_of h) es = map Some (history st)"
    by (rule state_of_SomeD)
  let ?step = "stepNumber st"
  let ?nh = "js_slice0 es (?step + 1)"
  let ?nH = "js_slice0 (history st) (?step + 1)"
  from ok s hi have lt: "s < lim h" "hist < lim h" by (auto simp: store_ok_def)
  have keep: "keeps h (snd (boardReducer_store h s act))" by (rule boardReducer_store_keeps)
  consider (goto) "action_type act = ''SET_STEPNUMBER''"
    | (select) "action_type act = ''SELECT_SQUARE''"
    | (other) "action_type act \<noteq> ''SET_STEPNUMBER''" "action_type act \<noteq> ''SELECT_SQUARE''"
    by blast
  then show ?thesis
  proof cases
    case goto
    have r: "boardReducer_store h s act =
       (Returns (lim h), h\<lparr>objects := (objects h)(lim h \<mapsto> StateObject hist (action_stepNumber act)),
                            lim := Suc (lim h)\<rparr>)"
      by (simp add: boardReducer_store_def s goto alloc_def)
    from keep have k: "keeps h (h\<lparr>objects := (objects h)(lim h \<mapsto> StateObject hist (action_stepNumber act)),
                            lim := Suc (lim h)\<rparr>)" by (simp add: r)
    from lt hi have "objects (h\<lparr>objects := (objects h)(lim h \<mapsto> StateObject hist (action_stepNumber act)),
                            lim := Suc (lim h)\<rparr>) hist = Some (HistoryArray es)" by simp
    with entries_keeps[OF ok k en] show ?thesis
      by (simp add: r boardReducer_def goto state_of_def those_eq_Some[THEN iffD2])
  next
    case other
    then show ?thesis by (simp add: boardReducer_store_def boardReducer_def s)
  next
    case select
    have mnh: "map (entry_of h) ?nh = map Some ?nH"
      using en by (simp add: js_slice0_map)
    show ?thesis
    proof (cases "?nh = []")
      case True
      with mnh have "?nH = []" by simp
      with True show ?thesis
        by (simp add: boardReducer_store_def boardReducer_def s hi select alloc_def Let_def)
    next
      case False
      with mnh have nH: "?nH \<noteq> []" by auto
      from False mnh have "entry_of h (last ?nh) = Some (last ?nH)"
        by (metis last_map nH)
      then obtain cur where e: "objects h (last ?nh) = Some (EntryObject cur)"
        and c: "objects h cur = Some (SquaresArray (squares (last ?nH)))"
        by (rule entry_of_SomeD)
      from ok e c have lt2: "last ?nh < lim h" "cur < lim h" by (auto simp: store_ok_def)
      let ?arr = "squares (last ?nH)"
      let ?sq = "js_spread ?arr"
      show ?thesis
      proof (cases "truthy (calculateWinner ?sq) \<or> truthy (js_get ?sq (action_square act))")
        case True
        with False nH lt2 show ?thesis
          by (simp add: boardReducer_store_def boardReducer_def s hi e c select alloc_def Let_def)
      next
        case guard: False
        let ?mark = "if js_rem ?step 2 = 0 then Str ''X'' else Str ''O''"
        let ?L = "lim h"
        let ?h6 = "snd (boardReducer_store h s act)"
        have r: "fst (boardReducer_store h s act) = Returns (Suc (Suc (Suc (Suc ?L))))"
          and o1: "objects ?h6 (Suc (Suc (Suc (Suc ?L)))) = Some (StateObject (Suc (Suc (Suc ?L))) (?step + 1))"
          and o2: "objects ?h6 (Suc (Suc (Suc ?L))) = Some (HistoryArray (?nh @ [Suc (Suc ?L)]))"
          and o3: "objects ?h6 (Suc (Suc ?L)) = Some (EntryObject (Suc ?L))"
          and o4: "objects ?h6 (Suc ?L) = Some (SquaresArray (js_set ?sq (action_square act) ?mark))"
          using False nH lt2 guard
          by (simp_all add: boardReducer_store_def s hi e c select alloc_def assign_def Let_def)
        have new: "entry_of ?h6 (Suc (Suc ?L)) = Some \<lparr>squares = js_set ?sq (action_square act) ?mark\<rparr>"
          by (simp add: entry_of_def o3 o4)
        from entries_keeps[OF ok keep mnh] new
        have "map (entry_of ?h6) (?nh @ [Suc (Suc ?L)])
              = map Some (?nH @ [\<lparr>squares = js_set ?sq (action_square act) ?mark\<rparr>])"
          by simp
        then have "those (map (entry_of ?h6) (?nh @ [Suc (Suc ?L)]))
              = Some (?nH @ [\<lparr>squares = js_set ?sq (action_square act) ?mark\<rparr>])"
          by (simp only: those_map_Some)
        then have "state_of ?h6 (Suc (Suc (Suc (Suc ?L))))
              = Some \<lparr>history = ?nH @ [\<lparr>squares = js_set ?sq (action_square act) ?mark\<rparr>],
                      stepNumber = ?step + 1\<rparr>"
          by (simp only: state_of_def o1 o2 option.case hobj.case)
        with guard nH show ?thesis
          by (simp add: r boardReducer_def select Let_def xIsNext_def)
      qed
    qed
  qed
qed

section \<open>A move on an occupied cell\<close>

text \<open>
  Claim C9 as stated asks for a \<open>CellOccupied\<close> result. After X at 4 and O at 0,
  selecting the occupied cell 4 makes the reducer take its bare \<open>return\<close>:
  nothing is thrown and no error value is returned.
\<close>

theorem occupied_cell_no_error_counterexample:
  "occupied x4_o0 4 \<and> boardReducer x4_o0 (select 4) = ReturnsUndefined"
  by (simp add: occupied_def board_copy_def reducer_eval x4_o0_def)

text \<open>
  Claim C9, amended. For every state with the cursor inside the history and
  every cellIndex whose target cell is occupied, \<open>SELECT_SQUARE\<close> is rejected by
  the reducer's early return, with no \<open>CellOccupied\<close> error; every object that
  existed before the call, the input snapshot and every snapshot of the history
  among them, is the same after it, so the state reference still denotes the
  same state.
\<close>

theorem occupied_cell_rejected_without_mutation:
  assumes "store_ok h" and "state_of h s = Some st"
    and "action_type act = ''SELECT_SQUARE''" and "cursor_in_range st"
    and "occupied st (action_square act)"
  shows "fst (boardReducer_store h s act) = ReturnsUndefined
         \<and> boardReducer st act = ReturnsUndefined
         \<and> (\<forall>a. objects h a \<noteq> None \<longrightarrow> objects (snd (boardReducer_store h s act)) a = objects h a)
         \<and> state_of (snd (boardReducer_store h s act)) s = Some st"
proof -
  have keep: "keeps h (snd (boardReducer_store h s act))"
    by (rule boardReducer_store_keeps)
  have v: "boardReducer st act = ReturnsUndefined"
    using select_square_in_range[OF assms(3,4)] assms(5) by simp
  from boardReducer_store_refines[OF assms(1,2), of act]
  have r: "fst (boardReducer_store h s act) = ReturnsUndefined"
    unfolding v by (cases "fst (boardReducer_store h s act)") simp_all
  from keep assms(1)
  have f: "\<forall>a. objects h a \<noteq> None \<longrightarrow> objects (snd (boardReducer_store h s act)) a = objects h a"
    by (auto simp: keeps_def store_ok_def)
  from r v f state_of_keeps[OF assms(1) keep assms(2)] show ?thesis by simp
qed

lemma x_at_0_store_ok: "store_ok x_at_0_store"
  by (auto simp: store_ok_def x_at_0_store_def split: if_splits)

lemma x_at_0_store_state: "state_of x_at_0_store 5 = Some x_at_0"
  by (simp add: state_of_def entry_of_def x_at_0_store_def x_at_0_def blank_def board_def)

theorem occupied_cell_rejected_without_mutation_witness:
  "store_ok x_at_0_store \<and> state_of x_at_0_store 5 = Some x_at_0
   \<and> action_type (select 0) = ''SELECT_SQUARE'' \<and> cursor_in_range x_at_0
   \<and> occupied x_at_0 (action_square (select 0))
   \<and> fst (boardReducer_store x_at_0_store 5 (select 0)) = ReturnsUndefined
   \<and> objects x_at_0_store 2 \<noteq> None
   \<and> objects (snd (boardReducer_store x_at_0_store 5 (select 0))) 2
       = Some (SquaresArray \<lparr>elems = [markX, Null, Null, Null, Null, Null, Null, Null, Null],
                              props = []\<rparr>)
   \<and> state_of (snd (boardReducer_store x_at_0_store 5 (select 0))) 5 = Some x_at_0"
proof -
  have a: "action_type (select 0) = ''SELECT_SQUARE''" by (simp add: select_def)
  have c: "cursor_in_range x_at_0" by (simp add: cursor_in_range_def x_at_0_def)
  have o: "occupied x_at_0 (action_square (select 0))"
    by (simp add: occupied_def board_copy_def reducer_eval x_at_0_def)
  have 2: "objects x_at_0_store 2
       = Some (SquaresArray \<lparr>elems = [markX, Null, Null, Null, Null, Null, Null, Null, Null],
                              props = []\<rparr>)"
    by (simp add: x_at_0_store_def)
  from occupied_cell_rejected_without_mutation[OF x_at_0_store_ok x_at_0_store_state a c o]
    x_at_0_store_ok x_at_0_store_state a c o 2
  show ?thesis by simp
qed

section \<open>The Board components\<close>

text \<open>
  The \<open>Board\<close> of \<open>09.classes.js\<close> leaves its state as it is when the game is
  decided or the cell is taken.
\<close>

lemma selectSquare_invalid_unchanged:
  "truthy (calculateWinner (board_squares b)) \<or> truthy (js_get (board_squares b) square)
   \<Longrightarrow> selectSquare b square = b"
  by (simp add: selectSquare_def)

text \<open>
  \<open>calculateWinner\<close> applied to a number finds no winner, so the second
  \<open>Board\<close> never stops for a decided game: on a board that X has won, O can
  still take an empty cell.
\<close>

lemma calculateWinner_number: "calculateWinner (number_as_object n) = Null"
  by (simp add: calculateWinner_def lines_def number_as_object_def js_get_def is_array_index_def)

lemma selectSquare_advanced_plays_on_decided_board:
  "calculateWinner (squares (board [markX, markX, markX, Null, markO, Null, Null, Null, markO])) = markX
   \<and> selectSquare_advanced
       \<lparr>board_squares = squares (board [markX, markX, markX, Null, markO, Null, Null, Null, markO]),
        board_xIsNext = False\<rparr> 3
     = \<lparr>board_squares = squares (board [markX, markX, markX, markO, markO, Null, Null, Null, markO]),
        board_xIsNext = True\<rparr>"
  by (simp add: selectSquare_advanced_def calculateWinner_number)
     (simp add: reducer_eval)

end
